theory Spec2Isabelle
  imports Main "HOL-Library.Word" "HOL-Library.Sublist"
begin

section \<open>JavaScript values used by \<^verbatim>\<open>src/app/index.jsx\<close>\<close>

text \<open>
  A JavaScript string is a sequence of UTF-16 code units; \<^verbatim>\<open>===\<close> on two strings
  compares these sequences.
\<close>

type_synonym jsstring = "16 word list"

text \<open>
  \<^verbatim>\<open>String.prototype.trim\<close> strips, from both ends, the code units that ECMAScript
  calls WhiteSpace or LineTerminator: TAB, LF, VT, FF, CR, SP, NBSP, U+1680,
  U+2000 to U+200A, LS, PS, U+202F, U+205F, U+3000 and U+FEFF.
\<close>

definition isWhiteSpace :: "16 word \<Rightarrow> bool" where
  "isWhiteSpace c \<longleftrightarrow>
     c = 0x0009 \<or> c = 0x000A \<or> c = 0x000B \<or> c = 0x000C \<or> c = 0x000D \<or>
     c = 0x0020 \<or> c = 0x00A0 \<or> c = 0x1680 \<or> (0x2000 \<le> c \<and> c \<le> 0x200A) \<or>
     c = 0x2028 \<or> c = 0x2029 \<or> c = 0x202F \<or> c = 0x205F \<or> c = 0x3000 \<or>
     c = 0xFEFF"

definition trim :: "jsstring \<Rightarrow> jsstring" where
  "trim s = rev (dropWhile isWhiteSpace (rev (dropWhile isWhiteSpace s)))"

text \<open>
  \<^verbatim>\<open>Date.now()\<close> is an integer number of milliseconds, far below \<open>10^21\<close> in
  magnitude, so \<^verbatim>\<open>toString()\<close> renders it in plain decimal, with a leading minus
  sign (U+002D) when it is negative.
\<close>

function digits :: "int \<Rightarrow> jsstring" where
  "digits n = (if n < 10 then [0x30 + of_int n]
               else digits (n div 10) @ [0x30 + of_int (n mod 10)])"
  by pat_completeness auto
termination
  by (relation "measure nat") auto

declare digits.simps [simp del]

definition toString :: "int \<Rightarrow> jsstring" where
  "toString i = (if i < 0 then 0x2D # digits (- i) else digits i)"

text \<open>ASCII literals, for writing concrete titles.\<close>

definition js :: "string \<Rightarrow> jsstring" where
  "js s = map (\<lambda>c. of_nat (of_char c)) s"

section \<open>The two slices and the store\<close>

text \<open>
  A task as \<^verbatim>\<open>addTodo\<close> builds it. The fields \<^verbatim>\<open>id\<close> and \<^verbatim>\<open>done\<close> carry a
  suffix here, since both names are taken in Isabelle.
\<close>

record todo =
  id_todo :: jsstring
  title :: jsstring
  done_todo :: bool
  createdAt :: jsstring

record todos_state =
  items :: "todo list"

record ui_state =
  darkMode :: bool
  showBanner :: bool
  showAddBanner :: bool

record root_state =
  todos :: todos_state
  ui :: ui_state

text \<open>
  The reducer \<^verbatim>\<open>addTodo\<close> reads the wall clock twice: \<^verbatim>\<open>Date.now()\<close> and
  \<^verbatim>\<open>new Date().toISOString()\<close>. Both readings are inputs of the model.
\<close>

record env =
  dateNow :: int
  dateISO :: jsstring

definition todos_initialState :: todos_state where
  "todos_initialState = \<lparr>items = []\<rparr>"

definition ui_initialState :: ui_state where
  "ui_initialState = \<lparr>darkMode = False, showBanner = True, showAddBanner = False\<rparr>"

subsection \<open>Reducers of the todos slice\<close>

definition addTodo :: "env \<Rightarrow> todos_state \<Rightarrow> jsstring \<Rightarrow> todos_state" where
  "addTodo e state payload =
     state\<lparr>items := items state @
       [\<lparr>id_todo = toString (dateNow e), title = payload, done_todo = False,
         createdAt = dateISO e\<rparr>]\<rparr>"

text \<open>
  \<^verbatim>\<open>Array.prototype.find\<close> returns the first element that satisfies the predicate, or
  \<^verbatim>\<open>undefined\<close>. The element is a reference into the array, so the model returns its
  index and the assignment to \<^verbatim>\<open>todo.done\<close> updates the list at that index.
\<close>

fun find_index :: "('a \<Rightarrow> bool) \<Rightarrow> 'a list \<Rightarrow> nat option" where
  "find_index P [] = None"
| "find_index P (x # xs) =
     (if P x then Some 0
      else (case find_index P xs of None \<Rightarrow> None | Some i \<Rightarrow> Some (Suc i)))"

definition toggleTodo :: "todos_state \<Rightarrow> jsstring \<Rightarrow> todos_state" where
  "toggleTodo state payload =
     (case find_index (\<lambda>t. id_todo t = payload) (items state) of
        None \<Rightarrow> state
      | Some i \<Rightarrow>
          state\<lparr>items := (items state)
            [i := (items state ! i)\<lparr>done_todo := \<not> done_todo (items state ! i)\<rparr>]\<rparr>)"

definition removeTodo :: "todos_state \<Rightarrow> jsstring \<Rightarrow> todos_state" where
  "removeTodo state payload =
     state\<lparr>items := filter (\<lambda>t. id_todo t \<noteq> payload) (items state)\<rparr>"

definition clearTodos :: "todos_state \<Rightarrow> todos_state" where
  "clearTodos state = state\<lparr>items := []\<rparr>"

subsection \<open>Reducers of the ui slice\<close>

definition toggleDarkMode :: "ui_state \<Rightarrow> ui_state" where
  "toggleDarkMode state = state\<lparr>darkMode := \<not> darkMode state\<rparr>"

definition dismissBanner :: "ui_state \<Rightarrow> ui_state" where
  "dismissBanner state = state\<lparr>showBanner := False\<rparr>"

text \<open>The reducer \<^verbatim>\<open>showAddBanner\<close>; the state field has the name already.\<close>

definition showAddBanner_reducer :: "ui_state \<Rightarrow> ui_state" where
  "showAddBanner_reducer state = state\<lparr>showAddBanner := True\<rparr>"

definition hideAddBanner :: "ui_state \<Rightarrow> ui_state" where
  "hideAddBanner state = state\<lparr>showAddBanner := False\<rparr>"

subsection \<open>Actions and the store\<close>

text \<open>
  One action per case reducer. A slice reducer built by \<^verbatim>\<open>createSlice\<close> answers the
  actions of its own slice and returns its state as it is on every other action;
  \<^verbatim>\<open>configureStore\<close> combines the two slice reducers, each on its own key.
\<close>

datatype action =
    AddTodo jsstring
  | ToggleTodo jsstring
  | RemoveTodo jsstring
  | ClearTodos
  | ToggleDarkMode
  | DismissBanner
  | ShowAddBanner
  | HideAddBanner

fun todosSlice_reducer :: "env \<Rightarrow> todos_state \<Rightarrow> action \<Rightarrow> todos_state" where
  "todosSlice_reducer e state (AddTodo p) = addTodo e state p"
| "todosSlice_reducer e state (ToggleTodo p) = toggleTodo state p"
| "todosSlice_reducer e state (RemoveTodo p) = removeTodo state p"
| "todosSlice_reducer e state ClearTodos = clearTodos state"
| "todosSlice_reducer e state _ = state"

fun uiSlice_reducer :: "ui_state \<Rightarrow> action \<Rightarrow> ui_state" where
  "uiSlice_reducer state ToggleDarkMode = toggleDarkMode state"
| "uiSlice_reducer state DismissBanner = dismissBanner state"
| "uiSlice_reducer state ShowAddBanner = showAddBanner_reducer state"
| "uiSlice_reducer state HideAddBanner = hideAddBanner state"
| "uiSlice_reducer state _ = state"

definition store_reducer :: "env \<Rightarrow> root_state \<Rightarrow> action \<Rightarrow> root_state" where
  "store_reducer e s a =
     \<lparr>todos = todosSlice_reducer e (todos s) a, ui = uiSlice_reducer (ui s) a\<rparr>"

definition store_initialState :: root_state where
  "store_initialState = \<lparr>todos = todos_initialState, ui = ui_initialState\<rparr>"

section \<open>The component \<^verbatim>\<open>TodosCard\<close> and its timer\<close>

text \<open>
  What \<^verbatim>\<open>addNewTodo\<close> reads and writes: the store, the text of the input field
  (\<^verbatim>\<open>useState("")\<close>), the callbacks handed to \<^verbatim>\<open>setTimeout\<close> and not yet run, the
  clock of the timers, and the number of haptic impacts requested. The source has one
  \<^verbatim>\<open>setTimeout\<close> call, with the callback \<^verbatim>\<open>() => dispatch(hideAddBanner())\<close>, so a
  pending timer is the time at which it is due.
\<close>

record app =
  store :: root_state
  title_input :: jsstring
  timers :: "nat list"
  clock :: nat
  haptics :: nat

definition app_initial :: app where
  "app_initial =
     \<lparr>store = store_initialState, title_input = [], timers = [], clock = 0, haptics = 0\<rparr>"

definition dispatch :: "env \<Rightarrow> action \<Rightarrow> app \<Rightarrow> app" where
  "dispatch e a w = w\<lparr>store := store_reducer e (store w) a\<rparr>"

definition setTitle :: "jsstring \<Rightarrow> app \<Rightarrow> app" where
  "setTitle s w = w\<lparr>title_input := s\<rparr>"

definition impactAsync :: "app \<Rightarrow> app" where
  "impactAsync w = w\<lparr>haptics := Suc (haptics w)\<rparr>"

definition setTimeout :: "nat \<Rightarrow> app \<Rightarrow> app" where
  "setTimeout delay w = w\<lparr>timers := timers w @ [clock w + delay]\<rparr>"

text \<open>The empty string is the only falsy string, so \<^verbatim>\<open>!title.trim()\<close> tests for it.\<close>

definition addNewTodo :: "env \<Rightarrow> app \<Rightarrow> app" where
  "addNewTodo e w =
     (if trim (title_input w) = [] then w
      else setTimeout 2000
             (dispatch e ShowAddBanner
               (impactAsync
                 (setTitle []
                   (dispatch e (AddTodo (trim (title_input w))) w)))))"

text \<open>
  The event loop: when the timer clock moves on by \<open>d\<close>, every pending callback that is
  due by then runs, in the order of scheduling, and leaves the queue.
\<close>

definition advance :: "env \<Rightarrow> nat \<Rightarrow> app \<Rightarrow> app" where
  "advance e d w =
     (let now = clock w + d;
          due = filter (\<lambda>t. t \<le> now) (timers w);
          rest = filter (\<lambda>t. \<not> t \<le> now) (timers w)
      in (fold (\<lambda>_. dispatch e HideAddBanner) due w)\<lparr>timers := rest, clock := now\<rparr>)"

text \<open>
  What the user can do on the screen, and the passing of time. Typing \<open>s\<close> and pressing
  Add is \<^verbatim>\<open>onChangeText\<close> followed by \<^verbatim>\<open>addNewTodo\<close>.
\<close>

datatype event =
    AddTask jsstring
  | ToggleTask jsstring
  | RemoveTask jsstring
  | ClearAll
  | ToggleDark
  | DismissInfo
  | Elapse nat

fun step :: "env \<Rightarrow> event \<Rightarrow> app \<Rightarrow> app" where
  "step e (AddTask s) w = addNewTodo e (setTitle s w)"
| "step e (ToggleTask i) w = dispatch e (ToggleTodo i) w"
| "step e (RemoveTask i) w = dispatch e (RemoveTodo i) w"
| "step e ClearAll w = dispatch e ClearTodos w"
| "step e ToggleDark w = dispatch e ToggleDarkMode w"
| "step e DismissInfo w = dispatch e DismissBanner w"
| "step e (Elapse d) w = advance e d w"

text \<open>A session: events in order, each with the wall-clock readings at that moment.\<close>

fun run :: "(env \<times> event) list \<Rightarrow> app \<Rightarrow> app" where
  "run [] w = w"
| "run ((e, ev) # evs) w = run evs (step e ev w)"

text \<open>The task list and the flag of the "New task added!" banner, read off the app.\<close>

abbreviation tasks :: "app \<Rightarrow> todo list" where
  "tasks w \<equiv> items (todos (store w))"

abbreviation banner :: "app \<Rightarrow> bool" where
  "banner w \<equiv> showAddBanner (ui (store w))"

text \<open>Which events submit a title, and how far a session moves the timer clock.\<close>

fun is_add :: "event \<Rightarrow> bool" where
  "is_add (AddTask s) = True"
| "is_add _ = False"

fun elapsed :: "(env \<times> event) list \<Rightarrow> nat" where
  "elapsed [] = 0"
| "elapsed ((e, Elapse d) # evs) = d + elapsed evs"
| "elapsed (_ # evs) = elapsed evs"

subsection \<open>Concrete sessions\<close>

text \<open>
  Two wall-clock readings one millisecond apart, and two sessions of two adds each:
  in \<open>two_app\<close> the adds read different milliseconds, in \<open>dup_app\<close> the same one.
  The session \<open>one_app\<close> is \<open>dup_app\<close> before its second add.
\<close>

definition e0 :: env where
  "e0 = \<lparr>dateNow = 1700000000000, dateISO = js ''2023-11-14T22:13:20.000Z''\<rparr>"

definition e1 :: env where
  "e1 = \<lparr>dateNow = 1700000000001, dateISO = js ''2023-11-14T22:13:20.001Z''\<rparr>"

definition two_app :: app where
  "two_app = run [(e0, AddTask (js '' milk '')), (e1, AddTask (js ''eggs''))] app_initial"

definition dup_app :: app where
  "dup_app = run [(e0, AddTask (js ''milk'')), (e0, AddTask (js ''eggs''))] app_initial"

definition one_app :: app where
  "one_app = run [(e0, AddTask (js ''milk''))] app_initial"

section \<open>Basic facts\<close>

lemmas run_defs =
  app_initial_def store_initialState_def todos_initialState_def ui_initialState_def
  addNewTodo_def setTitle_def dispatch_def impactAsync_def setTimeout_def addTodo_def
  store_reducer_def showAddBanner_reducer_def e0_def e1_def trim_def isWhiteSpace_def js_def

lemma two_app_eq:
  "two_app =
     \<lparr>store = \<lparr>todos = \<lparr>items =
        [\<lparr>id_todo = js ''1700000000000'', title = js ''milk'', done_todo = False,
           createdAt = js ''2023-11-14T22:13:20.000Z''\<rparr>,
         \<lparr>id_todo = js ''1700000000001'', title = js ''eggs'', done_todo = False,
           createdAt = js ''2023-11-14T22:13:20.001Z''\<rparr>]\<rparr>,
        ui = \<lparr>darkMode = False, showBanner = True, showAddBanner = True\<rparr>\<rparr>,
      title_input = [], timers = [2000, 2000], clock = 0, haptics = 2\<rparr>"
  by (simp add: two_app_def run_defs toString_def digits.simps)

lemma dup_app_eq:
  "dup_app =
     \<lparr>store = \<lparr>todos = \<lparr>items =
        [\<lparr>id_todo = js ''1700000000000'', title = js ''milk'', done_todo = False,
           createdAt = js ''2023-11-14T22:13:20.000Z''\<rparr>,
         \<lparr>id_todo = js ''1700000000000'', title = js ''eggs'', done_todo = False,
           createdAt = js ''2023-11-14T22:13:20.000Z''\<rparr>]\<rparr>,
        ui = \<lparr>darkMode = False, showBanner = True, showAddBanner = True\<rparr>\<rparr>,
      title_input = [], timers = [2000, 2000], clock = 0, haptics = 2\<rparr>"
  by (simp add: dup_app_def run_defs toString_def digits.simps)

lemma one_app_eq:
  "one_app =
     \<lparr>store = \<lparr>todos = \<lparr>items =
        [\<lparr>id_todo = js ''1700000000000'', title = js ''milk'', done_todo = False,
           createdAt = js ''2023-11-14T22:13:20.000Z''\<rparr>]\<rparr>,
        ui = \<lparr>darkMode = False, showBanner = True, showAddBanner = True\<rparr>\<rparr>,
      title_input = [], timers = [2000], clock = 0, haptics = 1\<rparr>"
  by (simp add: one_app_def run_defs toString_def digits.simps)

lemma step_one_app: "step e0 (AddTask (js ''eggs'')) one_app = dup_app"
  by (simp add: one_app_def dup_app_def)

subsection \<open>Trimming\<close>

lemma trim_Nil_iff: "trim s = [] \<longleftrightarrow> (\<forall>c\<in>set s. isWhiteSpace c)"
proof -
  have "trim s = [] \<longleftrightarrow> dropWhile isWhiteSpace (rev (dropWhile isWhiteSpace s)) = []"
    by (simp add: trim_def)
  also have "\<dots> \<longleftrightarrow> dropWhile isWhiteSpace s = []"
  proof
    assume a: "dropWhile isWhiteSpace (rev (dropWhile isWhiteSpace s)) = []"
    show "dropWhile isWhiteSpace s = []"
    proof (rule ccontr)
      assume n: "dropWhile isWhiteSpace s \<noteq> []"
      then have "\<not> isWhiteSpace (hd (dropWhile isWhiteSpace s))" by (rule hd_dropWhile)
      moreover have "hd (dropWhile isWhiteSpace s) \<in> set (rev (dropWhile isWhiteSpace s))"
        using n by simp
      ultimately show False using a by auto
    qed
  qed (auto dest: set_dropWhileD)
  also have "\<dots> \<longleftrightarrow> (\<forall>c\<in>set s. isWhiteSpace c)" by simp
  finally show ?thesis .
qed

subsection \<open>Dispatching\<close>

lemma store_dispatch [simp]: "store (dispatch e a w) = store_reducer e (store w) a"
  and title_dispatch [simp]: "title_input (dispatch e a w) = title_input w"
  and timers_dispatch [simp]: "timers (dispatch e a w) = timers w"
  and clock_dispatch [simp]: "clock (dispatch e a w) = clock w"
  and haptics_dispatch [simp]: "haptics (dispatch e a w) = haptics w"
  by (simp_all add: dispatch_def)

lemma todos_store_reducer [simp]:
  "todos (store_reducer e s a) = todosSlice_reducer e (todos s) a"
  and ui_store_reducer [simp]: "ui (store_reducer e s a) = uiSlice_reducer (ui s) a"
  by (simp_all add: store_reducer_def)

lemma dispatch_same_store: "store_reducer e (store w) a = store w \<Longrightarrow> dispatch e a w = w"
  by (simp add: dispatch_def)

lemma store_reducer_same:
  "uiSlice_reducer (ui s) a = ui s \<Longrightarrow> todosSlice_reducer e (todos s) a = todos s \<Longrightarrow>
   store_reducer e s a = s"
  by (simp add: store_reducer_def)

lemma addNewTodo_blank: "trim (title_input w) = [] \<Longrightarrow> addNewTodo e w = w"
  by (simp add: addNewTodo_def)

lemma addNewTodo_nonblank:
  "trim (title_input w) \<noteq> [] \<Longrightarrow>
   addNewTodo e w =
     \<lparr>store = store_reducer e (store_reducer e (store w) (AddTodo (trim (title_input w))))
                ShowAddBanner,
      title_input = [], timers = timers w @ [clock w + 2000], clock = clock w,
      haptics = Suc (haptics w)\<rparr>"
  by (simp add: addNewTodo_def setTimeout_def dispatch_def impactAsync_def setTitle_def)

subsection \<open>Finding and toggling\<close>

lemma find_index_None_iff: "find_index P xs = None \<longleftrightarrow> (\<forall>x\<in>set xs. \<not> P x)"
  by (induction xs) (auto split: option.splits)

lemma find_index_SomeD:
  "find_index P xs = Some i \<Longrightarrow> i < length xs \<and> P (xs ! i) \<and> (\<forall>j<i. \<not> P (xs ! j))"
proof (induction xs arbitrary: i)
  case Nil
  then show ?case by simp
next
  case (Cons x xs)
  show ?case
  proof (cases "P x")
    case True
    with Cons.prems show ?thesis by simp
  next
    case False
    with Cons.prems obtain k where k: "find_index P xs = Some k" "i = Suc k"
      by (auto split: option.splits)
    from Cons.IH [OF k(1)] False k(2) show ?thesis
      by (auto simp: less_Suc_eq_0_disj)
  qed
qed

lemma find_index_first:
  "i < length xs \<Longrightarrow> P (xs ! i) \<Longrightarrow> \<forall>j<i. \<not> P (xs ! j) \<Longrightarrow> find_index P xs = Some i"
proof (induction xs arbitrary: i)
  case Nil
  then show ?case by simp
next
  case (Cons x xs)
  show ?case
  proof (cases i)
    case 0
    with Cons.prems show ?thesis by simp
  next
    case (Suc k)
    with Cons.prems have "\<not> P x" by auto
    moreover have "find_index P xs = Some k"
      using Cons.prems Suc by (intro Cons.IH) auto
    ultimately show ?thesis using Suc by simp
  qed
qed

lemma find_index_update:
  assumes "find_index P xs = Some i" and "P y"
  shows "find_index P (xs[i := y]) = Some i"
proof -
  from find_index_SomeD [OF assms(1)]
  have i: "i < length xs" and before: "\<forall>j<i. \<not> P (xs ! j)" by auto
  show ?thesis
    using i before assms(2) by (intro find_index_first) auto
qed

lemma toggleTodo_absent:
  "\<forall>t\<in>set (items s). id_todo t \<noteq> p \<Longrightarrow> toggleTodo s p = s"
  by (simp add: toggleTodo_def find_index_None_iff [THEN iffD2])

lemma toggleTodo_at:
  assumes "find_index (\<lambda>t. id_todo t = p) (items s) = Some i"
  shows "items (toggleTodo s p) =
           (items s)[i := (items s ! i)\<lparr>done_todo := \<not> done_todo (items s ! i)\<rparr>]"
  using assms by (simp add: toggleTodo_def)

lemma toggleTodo_twice: "toggleTodo (toggleTodo s p) p = s"
proof (cases "find_index (\<lambda>t. id_todo t = p) (items s)")
  case None
  then show ?thesis by (simp add: toggleTodo_def)
next
  case (Some i)
  let ?t = "(items s ! i)\<lparr>done_todo := \<not> done_todo (items s ! i)\<rparr>"
  from find_index_SomeD [OF Some] have i: "i < length (items s)" and p: "id_todo (items s ! i) = p"
    by auto
  have 1: "toggleTodo s p = s\<lparr>items := (items s)[i := ?t]\<rparr>"
    using Some by (simp add: toggleTodo_def)
  have 2: "find_index (\<lambda>t. id_todo t = p) ((items s)[i := ?t]) = Some i"
    using Some p by (intro find_index_update) auto
  show ?thesis
    unfolding 1 using 2 i by (simp add: toggleTodo_def)
qed

lemma length_toggleTodo [simp]: "length (items (toggleTodo s p)) = length (items s)"
  by (simp add: toggleTodo_def split: option.splits)

lemma toggleTodo_nth:
  assumes "i < length (items s)"
  shows "items (toggleTodo s p) ! i =
          (if find_index (\<lambda>t. id_todo t = p) (items s) = Some i
           then (items s ! i)\<lparr>done_todo := \<not> done_todo (items s ! i)\<rparr> else items s ! i)"
  using assms by (auto simp: toggleTodo_def nth_list_update split: option.splits)

subsection \<open>Removing\<close>

lemma removeTodo_absent: "\<forall>t\<in>set (items s). id_todo t \<noteq> p \<Longrightarrow> removeTodo s p = s"
  by (simp add: removeTodo_def)

subsection \<open>The timer\<close>

lemma hide_twice: "dispatch e HideAddBanner (dispatch e HideAddBanner w) = dispatch e HideAddBanner w"
  by (simp add: dispatch_def store_reducer_def hideAddBanner_def)

lemma fold_hide:
  "fold (\<lambda>_. dispatch e HideAddBanner) xs w = (if xs = [] then w else dispatch e HideAddBanner w)"
  by (induction xs arbitrary: w) (simp_all add: hide_twice)

lemma timers_advance [simp]:
  "timers (advance e d w) = filter (\<lambda>t. \<not> t \<le> clock w + d) (timers w)"
  and clock_advance [simp]: "clock (advance e d w) = clock w + d"
  by (simp_all add: advance_def Let_def)

lemma store_advance:
  "store (advance e d w) =
     (if \<exists>t\<in>set (timers w). t \<le> clock w + d
      then store_reducer e (store w) HideAddBanner else store w)"
  by (auto simp: advance_def Let_def fold_hide filter_empty_conv)

lemma tasks_advance [simp]: "tasks (advance e d w) = tasks w"
  by (simp add: store_advance)

lemma showBanner_advance [simp]:
  "showBanner (ui (store (advance e d w))) = showBanner (ui (store w))"
  by (simp add: store_advance hideAddBanner_def)

lemma banner_advance:
  "banner (advance e d w) \<longleftrightarrow> banner w \<and> (\<forall>t\<in>set (timers w). clock w + d < t)"
proof (cases "\<exists>t\<in>set (timers w). t \<le> clock w + d")
  case True
  then have "\<not> banner (advance e d w)"
    by (simp add: store_advance hideAddBanner_def)
  moreover from True have "\<not> (\<forall>t\<in>set (timers w). clock w + d < t)"
    by (simp add: not_less)
  ultimately show ?thesis by blast
next
  case False
  then have "store (advance e d w) = store w"
    by (simp add: store_advance)
  moreover from False have "\<forall>t\<in>set (timers w). clock w + d < t"
    by (simp add: not_le)
  ultimately show ?thesis by simp
qed

lemma banner_step_no_add: "\<not> is_add ev \<Longrightarrow> \<not> banner w \<Longrightarrow> \<not> banner (step e ev w)"
  by (cases ev)
     (simp_all add: banner_advance toggleDarkMode_def dismissBanner_def)

lemma banner_stays_hidden:
  "\<not> banner w \<Longrightarrow> \<forall>x\<in>set evs. \<not> is_add (snd x) \<Longrightarrow> \<not> banner (run evs w)"
proof (induction evs arbitrary: w)
  case Nil
  then show ?case by simp
next
  case (Cons x evs)
  obtain e ev where x: "x = (e, ev)" by (cases x)
  with Cons.prems have "\<not> banner (step e ev w)" by (simp add: banner_step_no_add)
  with Cons.prems x show ?case by (simp add: Cons.IH)
qed

lemma timers_step_no_add:
  "\<not> is_add ev \<Longrightarrow> (\<forall>d. ev \<noteq> Elapse d) \<Longrightarrow>
   timers (step e ev w) = timers w \<and> clock (step e ev w) = clock w"
  by (cases ev) simp_all

lemma hide_fires:
  "t \<in> set (timers w) \<Longrightarrow> clock w < t \<Longrightarrow> t \<le> clock w + elapsed evs \<Longrightarrow>
   \<forall>x\<in>set evs. \<not> is_add (snd x) \<Longrightarrow> \<not> banner (run evs w)"
proof (induction evs arbitrary: w)
  case Nil
  then show ?case by simp
next
  case (Cons x evs)
  obtain e ev where x: "x = (e, ev)" by (cases x)
  from Cons.prems x have noadd: "\<not> is_add ev" and rest: "\<forall>x\<in>set evs. \<not> is_add (snd x)"
    by auto
  show ?case
  proof (cases "\<exists>d. ev = Elapse d")
    case True
    then obtain d where ev: "ev = Elapse d" ..
    show ?thesis
    proof (cases "t \<le> clock w + d")
      case True
      with Cons.prems(1) have "\<not> banner (advance e d w)"
        by (fastforce simp: banner_advance not_less)
      with rest show ?thesis using x ev by (simp add: banner_stays_hidden)
    next
      case False
      with Cons.prems have "t \<in> set (timers (advance e d w))"
        and "clock (advance e d w) < t"
        and "t \<le> clock (advance e d w) + elapsed evs"
        using x ev by auto
      from Cons.IH [OF this rest] show ?thesis using x ev by simp
    qed
  next
    case False
    with noadd have same: "timers (step e ev w) = timers w" "clock (step e ev w) = clock w"
      by (simp_all add: timers_step_no_add)
    from False have "elapsed ((e, ev) # evs) = elapsed evs" by (cases ev) auto
    with Cons.prems x same have "t \<in> set (timers (step e ev w))"
      and "clock (step e ev w) < t" and "t \<le> clock (step e ev w) + elapsed evs"
      by auto
    from Cons.IH [OF this rest] show ?thesis using x by simp
  qed
qed

lemma addTask_banner:
  assumes "trim s \<noteq> []"
  shows "banner (addNewTodo e (setTitle s w))"
    and "timers (addNewTodo e (setTitle s w)) = timers w @ [clock w + 2000]"
    and "clock (addNewTodo e (setTitle s w)) = clock w"
  using assms by (simp_all add: addNewTodo_nonblank setTitle_def showAddBanner_reducer_def)

subsection \<open>The information banner\<close>

lemma showBanner_reducer:
  "\<not> showBanner u \<Longrightarrow> \<not> showBanner (uiSlice_reducer u a)"
  by (cases a)
     (simp_all add: toggleDarkMode_def dismissBanner_def showAddBanner_reducer_def
        hideAddBanner_def)

lemma showBanner_step:
  "\<not> showBanner (ui (store w)) \<Longrightarrow> \<not> showBanner (ui (store (step e ev w)))"
proof (cases ev)
  case (AddTask s)
  assume "\<not> showBanner (ui (store w))"
  then show ?thesis
    unfolding AddTask
    by (cases "trim s = []")
       (simp_all add: addNewTodo_blank addNewTodo_nonblank setTitle_def showAddBanner_reducer_def)
qed (simp_all add: toggleDarkMode_def dismissBanner_def)

lemma showBanner_run:
  "\<not> showBanner (ui (store w)) \<Longrightarrow> \<not> showBanner (ui (store (run evs w)))"
proof (induction evs arbitrary: w)
  case Nil
  then show ?case by simp
next
  case (Cons x evs)
  then show ?case by (cases x) (simp add: showBanner_step)
qed

subsection \<open>Decimal rendering is injective\<close>

lemma digit_inj:
  assumes "0 \<le> a" "a < 10" "0 \<le> b" "b < 10"
    and "(0x30 + of_int a :: 16 word) = 0x30 + of_int b"
  shows "a = b"
proof -
  from assms(5) have "(of_int a :: 16 word) = of_int b" by simp
  then have "take_bit 16 a = take_bit 16 b"
    by (simp add: word_of_int_eq_iff)
  moreover have "take_bit 16 a = a" "take_bit 16 b = b"
    using assms(1-4) by (simp_all add: take_bit_int_eq_self)
  ultimately show ?thesis by simp
qed

lemma digit_not_minus:
  assumes "0 \<le> a" "a < 10"
  shows "(0x30 + of_int a :: 16 word) \<noteq> 0x2D"
proof
  assume "(0x30 + of_int a :: 16 word) = 0x2D"
  then have "(of_int (48 + a) :: 16 word) = of_int 45" by simp
  then have "take_bit 16 (48 + a) = take_bit 16 (45 :: int)"
    unfolding word_of_int_eq_iff by simp
  moreover have "take_bit 16 (48 + a) = 48 + a" 
    using assms by (simp add: take_bit_int_eq_self)
  ultimately show False using assms by simp
qed

lemma digits_not_Nil: "digits n \<noteq> []"
  by (subst digits.simps) simp

lemma digits_no_minus: "0 \<le> n \<Longrightarrow> 0x2D \<notin> set (digits n)"
proof (induction n rule: digits.induct)
  case (1 n)
  show ?case
  proof (cases "n < 10")
    case True
    with "1.prems" digit_not_minus [of n] show ?thesis
      by (subst digits.simps) auto
  next
    case False
    then have "0 \<le> n div 10" "0 \<le> n mod 10" "n mod 10 < 10" by simp_all
    with False "1.IH" digit_not_minus [of "n mod 10"] show ?thesis
      by (subst digits.simps) auto
  qed
qed

lemma digits_inj: "0 \<le> n \<Longrightarrow> 0 \<le> m \<Longrightarrow> digits n = digits m \<Longrightarrow> n = m"
proof (induction n arbitrary: m rule: digits.induct)
  case (1 n)
  show ?case
  proof (cases "n < 10")
    case n: True
    then have dn: "digits n = [0x30 + of_int n]" by (subst digits.simps) simp
    show ?thesis
    proof (cases "m < 10")
      case True
      then have "digits m = [0x30 + of_int m]" by (subst digits.simps) simp
      with dn "1.prems" n True show ?thesis by (auto intro: digit_inj)
    next
      case False
      then have "digits m = digits (m div 10) @ [0x30 + of_int (m mod 10)]"
        by (subst digits.simps) simp
      with dn "1.prems"(3) digits_not_Nil [of "m div 10"] show ?thesis
        by (cases "digits (m div 10)") auto
    qed
  next
    case n: False
    then have dn: "digits n = digits (n div 10) @ [0x30 + of_int (n mod 10)]"
      by (subst digits.simps) simp
    show ?thesis
    proof (cases "m < 10")
      case True
      then have "digits m = [0x30 + of_int m]" by (subst digits.simps) simp
      with dn "1.prems"(3) digits_not_Nil [of "n div 10"] show ?thesis
        by (cases "digits (n div 10)") auto
    next
      case False
      then have "digits m = digits (m div 10) @ [0x30 + of_int (m mod 10)]"
        by (subst digits.simps) simp
      with dn "1.prems"(3) have eq: "digits (n div 10) = digits (m div 10)"
        and last: "(0x30 + of_int (n mod 10) :: 16 word) = 0x30 + of_int (m mod 10)"
        by simp_all
      have "n div 10 = m div 10"
        using n "1.prems" eq by (intro "1.IH") simp_all
      moreover have "n mod 10 = m mod 10"
        using last by (intro digit_inj) simp_all
      ultimately show ?thesis by (metis div_mult_mod_eq)
    qed
  qed
qed

lemma toString_inj: "toString a = toString b \<longleftrightarrow> a = b"
proof
  assume eq: "toString a = toString b"
  have hd_minus: "\<And>n m. 0 \<le> m \<Longrightarrow> 0x2D # digits n \<noteq> digits m"
  proof
    fix n m :: int assume "0 \<le> m" and "0x2D # digits n = digits m"
    then have "0x2D \<in> set (digits m)" by (metis list.set_intros(1))
    with \<open>0 \<le> m\<close> show False by (simp add: digits_no_minus)
  qed
  show "a = b"
  proof (cases "a < 0"; cases "b < 0")
    assume "a < 0" "b < 0"
    with eq have "digits (- a) = digits (- b)" by (simp add: toString_def)
    with \<open>a < 0\<close> \<open>b < 0\<close> have "- a = - b" by (intro digits_inj) simp_all
    then show ?thesis by simp
  next
    assume "a < 0" "\<not> b < 0"
    with eq hd_minus [of b "- a"] show ?thesis by (simp add: toString_def)
  next
    assume "\<not> a < 0" "b < 0"
    with eq hd_minus [of a "- b"] show ?thesis by (simp add: toString_def)
  next
    assume "\<not> a < 0" "\<not> b < 0"
    with eq show ?thesis by (intro digits_inj) (simp_all add: toString_def)
  qed
qed simp

section \<open>The claims\<close>

subsection \<open>Adding a task\<close>

text \<open>
  C1. When the submitted text is empty or holds only white space, \<^verbatim>\<open>addNewTodo\<close>
  returns at its first line: the app, with the text in the input field, is what it was.
  No task is created, the store, the pending timers and the haptics are as before. The
  handler has no failure branch, so there is no error to surface.
\<close>

theorem addTask_blank_noop:
  assumes "\<forall>c\<in>set s. isWhiteSpace c"
  shows "addNewTodo e (setTitle s w) = setTitle s w \<and>
         step e (AddTask s) w = w\<lparr>title_input := s\<rparr> \<and>
         tasks (step e (AddTask s) w) = tasks w \<and>
         store (step e (AddTask s) w) = store w \<and>
         timers (step e (AddTask s) w) = timers w \<and>
         clock (step e (AddTask s) w) = clock w \<and>
         haptics (step e (AddTask s) w) = haptics w"
  using assms by (simp add: addNewTodo_blank trim_Nil_iff setTitle_def)

theorem addTask_blank_noop_witness:
  "list_all isWhiteSpace (js ''  '') \<and>
   step e0 (AddTask (js ''  '')) two_app = two_app\<lparr>title_input := js ''  ''\<rparr> \<and>
   tasks (step e0 (AddTask (js ''  '')) two_app) = tasks two_app"
proof -
  have h: "\<forall>c\<in>set (js ''  ''). isWhiteSpace c" by (simp add: js_def isWhiteSpace_def)
  from addTask_blank_noop [OF h, of e0 two_app] h show ?thesis
    by (simp add: setTitle_def list_all_iff)
qed

text \<open>
  What an add does when the submitted text is not empty after trimming: the task list
  grows by one task at its end and the tasks already there keep their places. The new
  task carries the trimmed text, \<open>done = false\<close>, the decimal rendering of the
  \<^verbatim>\<open>Date.now()\<close> read in this call as its id, and the ISO rendering of the
  \<^verbatim>\<open>new Date()\<close> read in this call as its creation time.
\<close>

lemma addTask_appends:
  assumes "trim s \<noteq> []"
  shows "tasks (step e (AddTask s) w) =
           tasks w @ [\<lparr>id_todo = toString (dateNow e), title = trim s, done_todo = False,
                       createdAt = dateISO e\<rparr>] \<and>
         length (tasks (step e (AddTask s) w)) = Suc (length (tasks w)) \<and>
         take (length (tasks w)) (tasks (step e (AddTask s) w)) = tasks w \<and>
         done_todo (last (tasks (step e (AddTask s) w))) = False \<and>
         id_todo (last (tasks (step e (AddTask s) w))) = toString (dateNow e) \<and>
         createdAt (last (tasks (step e (AddTask s) w))) = dateISO e"
  using assms by (simp add: addNewTodo_nonblank setTitle_def addTodo_def)

lemma addTask_appends_example:
  "trim (js '' milk '') \<noteq> [] \<and>
   tasks (step e0 (AddTask (js '' milk '')) app_initial) =
     [\<lparr>id_todo = js ''1700000000000'', title = js ''milk'', done_todo = False,
        createdAt = js ''2023-11-14T22:13:20.000Z''\<rparr>]"
proof -
  have h: "trim (js '' milk '') \<noteq> []" by (simp add: trim_def js_def isWhiteSpace_def)
  from addTask_appends [OF h, of e0 app_initial] h show ?thesis
    by (simp add: run_defs toString_def digits.simps)
qed

text \<open>
  The id of the new task is fresh only when the millisecond read is not an id of the
  list yet: whenever a task of the list has that rendering as its id, the task added
  shares it.
\<close>

lemma added_id_fresh_iff:
  assumes "trim s \<noteq> []"
  shows "id_todo (last (tasks (step e (AddTask s) w))) \<notin> id_todo ` set (tasks w)
           \<longleftrightarrow> (\<forall>t\<in>set (tasks w). id_todo t \<noteq> toString (dateNow e))"
  using assms by (auto simp: addNewTodo_nonblank setTitle_def addTodo_def image_iff)

text \<open>
  C3. The claim is that an add with a text that is not empty after trimming appends
  one task, unfinished, with a freshly generated id and the current time. The task is
  appended, but its id is not fresh when the add reads a millisecond that an earlier
  add has read: in \<open>one_app\<close>, which holds one task, the add of "eggs" appends a second
  task whose id is the id of the first.
\<close>

theorem added_id_not_fresh:
  "trim (js ''eggs'') \<noteq> [] \<and>
   length (tasks one_app) = 1 \<and>
   length (tasks (step e0 (AddTask (js ''eggs'')) one_app)) = 2 \<and>
   take 1 (tasks (step e0 (AddTask (js ''eggs'')) one_app)) = tasks one_app \<and>
   id_todo (tasks (step e0 (AddTask (js ''eggs'')) one_app) ! 1) = id_todo (tasks one_app ! 0)"
  unfolding step_one_app
  by (simp add: one_app_eq dup_app_eq trim_def js_def isWhiteSpace_def)

subsection \<open>Identifiers\<close>

text \<open>
  C2. The claim is that the ids in the list are pairwise distinct in every reachable
  state. The id is the millisecond read from the wall clock, so two adds that read the
  same millisecond give two tasks one id: in \<open>dup_app\<close>, reached from the initial app by
  two adds, the ids are not distinct.
\<close>

theorem ids_not_unique: "\<not> distinct (map id_todo (tasks dup_app))"
  by (simp add: dup_app_eq)

text \<open>
  What the code does keep: an event keeps the ids distinct when the millisecond it reads
  is not yet an id in the list, and two adds from the initial app give distinct ids
  exactly when their readings differ.
\<close>

lemma map_id_toggleTodo: "map id_todo (items (toggleTodo s p)) = map id_todo (items s)"
  by (rule nth_equalityI) (simp_all add: toggleTodo_nth)

lemma distinct_ids_step:
  assumes "distinct (map id_todo (tasks w))"
    and "\<forall>t\<in>set (tasks w). id_todo t \<noteq> toString (dateNow e)"
  shows "distinct (map id_todo (tasks (step e ev w)))"
proof (cases ev)
  case (AddTask s)
  with assms show ?thesis
    by (cases "trim s = []")
       (auto simp: addNewTodo_blank addNewTodo_nonblank setTitle_def addTodo_def)
next
  case (ToggleTask p)
  with assms show ?thesis by (simp add: map_id_toggleTodo)
next
  case (RemoveTask p)
  with assms show ?thesis by (simp add: removeTodo_def distinct_map_filter)
qed (use assms in \<open>simp_all add: clearTodos_def\<close>)

lemma two_adds_distinct_iff:
  assumes "trim s \<noteq> []" and "trim s' \<noteq> []"
  shows "distinct (map id_todo (tasks (run [(ea, AddTask s), (eb, AddTask s')] app_initial)))
           \<longleftrightarrow> dateNow ea \<noteq> dateNow eb"
  using assms
  by (simp add: addNewTodo_nonblank setTitle_def addTodo_def app_initial_def
      store_initialState_def todos_initialState_def toString_inj)

subsection \<open>Toggling\<close>

text \<open>
  C4. The claim is that toggling by the id of any task of the list flips that task,
  that toggling twice gives the state back, and that toggling by an absent id changes
  nothing. The first part fails in \<open>dup_app\<close>, where the two tasks have one id: toggling
  by the id of the second task leaves the second task as it was and flips the first.
\<close>

theorem toggle_second_row_flips_first:
  "1 < length (tasks dup_app) \<and>
   done_todo (tasks (step e0 (ToggleTask (id_todo (tasks dup_app ! 1))) dup_app) ! 1) =
     done_todo (tasks dup_app ! 1) \<and>
   done_todo (tasks (step e0 (ToggleTask (id_todo (tasks dup_app ! 1))) dup_app) ! 0) =
     (\<not> done_todo (tasks dup_app ! 0))"
  by (simp add: dup_app_eq toggleTodo_def)

text \<open>
  What toggling does on every state: for a task that no earlier task shares its id
  with, toggling by its id flips its \<open>done\<close> flag and nothing else of it; toggling twice
  by any id gives the app back; toggling by an id that no task has changes nothing.
\<close>

lemma toggleTask_first_match:
  "(i < length (tasks w) \<and> (\<forall>j<i. id_todo (tasks w ! j) \<noteq> id_todo (tasks w ! i)) \<longrightarrow>
      tasks (step e (ToggleTask (id_todo (tasks w ! i))) w) ! i =
        (tasks w ! i)\<lparr>done_todo := \<not> done_todo (tasks w ! i)\<rparr>) \<and>
   step e' (ToggleTask p) (step e (ToggleTask p) w) = w \<and>
   ((\<forall>t\<in>set (tasks w). id_todo t \<noteq> p) \<longrightarrow> step e (ToggleTask p) w = w)"
proof (intro conjI impI)
  assume a: "i < length (tasks w) \<and> (\<forall>j<i. id_todo (tasks w ! j) \<noteq> id_todo (tasks w ! i))"
  then have "find_index (\<lambda>t. id_todo t = id_todo (tasks w ! i)) (tasks w) = Some i"
    by (intro find_index_first) auto
  with a show "tasks (step e (ToggleTask (id_todo (tasks w ! i))) w) ! i =
        (tasks w ! i)\<lparr>done_todo := \<not> done_todo (tasks w ! i)\<rparr>"
    by (simp add: toggleTodo_nth)
next
  show "step e' (ToggleTask p) (step e (ToggleTask p) w) = w"
    by (simp add: dispatch_def store_reducer_def toggleTodo_twice)
next
  assume "\<forall>t\<in>set (tasks w). id_todo t \<noteq> p"
  then show "step e (ToggleTask p) w = w"
    by (simp add: dispatch_def store_reducer_def toggleTodo_absent)
qed

lemma toggleTask_first_match_example:
  "1 < length (tasks two_app) \<and>
   id_todo (tasks two_app ! 0) \<noteq> id_todo (tasks two_app ! 1) \<and>
   done_todo (tasks (step e0 (ToggleTask (js ''1700000000001'')) two_app) ! 1) \<and>
   step e1 (ToggleTask (js ''1700000000001'')) (step e0 (ToggleTask (js ''1700000000001'')) two_app)
     = two_app \<and>
   list_all (\<lambda>t. id_todo t \<noteq> js ''42'') (tasks two_app) \<and>
   step e0 (ToggleTask (js ''42'')) two_app = two_app"
proof -
  have h1: "1 < length (tasks two_app) \<and>
     (\<forall>j<1. id_todo (tasks two_app ! j) \<noteq> id_todo (tasks two_app ! 1))"
    by (simp add: two_app_eq js_def)
  have h2: "\<forall>t\<in>set (tasks two_app). id_todo t \<noteq> js ''42''"
    by (simp add: two_app_eq js_def)
  have id1: "id_todo (tasks two_app ! 1) = js ''1700000000001''"
    by (simp add: two_app_eq)
  from toggleTask_first_match [of 1 two_app e0 e1 "js ''1700000000001''"]
    toggleTask_first_match [of 1 two_app e0 e1 "js ''42''"] h1 h2 id1
  show ?thesis by (simp add: two_app_eq list_all_iff)
qed

text \<open>When the ids of the list are pairwise distinct, every task is flipped by its id.\<close>

lemma toggle_under_distinct_ids:
  assumes "distinct (map id_todo (tasks w))" and "i < length (tasks w)"
  shows "tasks (step e (ToggleTask (id_todo (tasks w ! i))) w) ! i =
           (tasks w ! i)\<lparr>done_todo := \<not> done_todo (tasks w ! i)\<rparr>"
proof -
  have "\<forall>j<i. id_todo (tasks w ! j) \<noteq> id_todo (tasks w ! i)"
  proof (intro allI impI)
    fix j assume ji: "j < i"
    with assms(2) have j: "j < length (map id_todo (tasks w))"
      and i: "i < length (map id_todo (tasks w))" by simp_all
    from nth_eq_iff_index_eq [OF assms(1) j i] ji
    have "map id_todo (tasks w) ! j \<noteq> map id_todo (tasks w) ! i" by simp
    with ji assms(2) show "id_todo (tasks w ! j) \<noteq> id_todo (tasks w ! i)" by simp
  qed
  with assms(2) toggleTask_first_match [of i w e] show ?thesis by blast
qed

subsection \<open>What an operation may change in a task\<close>

text \<open>
  C5. An add keeps the tasks that were there, as they were and where they were. A
  toggle keeps the length, keeps id, title and creation time of the task at every
  index, and keeps every task whose id is not the toggled one as a whole. What a removal
  leaves is a subsequence of the list before, so every task left is one of the old
  tasks, untouched. Clearing leaves no task. The ui events and the timer leave the list
  as it is.
\<close>

theorem only_done_flag_changes:
  "take (length (tasks w)) (tasks (step e (AddTask s) w)) = tasks w \<and>
   length (tasks (step e (ToggleTask p) w)) = length (tasks w) \<and>
   (\<forall>i<length (tasks w).
      id_todo (tasks (step e (ToggleTask p) w) ! i) = id_todo (tasks w ! i) \<and>
      title (tasks (step e (ToggleTask p) w) ! i) = title (tasks w ! i) \<and>
      createdAt (tasks (step e (ToggleTask p) w) ! i) = createdAt (tasks w ! i) \<and>
      (id_todo (tasks w ! i) \<noteq> p \<longrightarrow> tasks (step e (ToggleTask p) w) ! i = tasks w ! i)) \<and>
   subseq (tasks (step e (RemoveTask p) w)) (tasks w) \<and>
   tasks (step e ClearAll w) = [] \<and>
   tasks (step e ToggleDark w) = tasks w \<and>
   tasks (step e DismissInfo w) = tasks w \<and>
   tasks (step e (Elapse d) w) = tasks w"
proof (intro conjI allI impI)
  show "take (length (tasks w)) (tasks (step e (AddTask s) w)) = tasks w"
    by (cases "trim s = []")
       (simp_all add: addNewTodo_blank addNewTodo_nonblank setTitle_def addTodo_def)
next
  fix i assume i: "i < length (tasks w)"
  let ?new = "tasks (step e (ToggleTask p) w) ! i"
  have new: "?new = (if find_index (\<lambda>t. id_todo t = p) (tasks w) = Some i
           then (tasks w ! i)\<lparr>done_todo := \<not> done_todo (tasks w ! i)\<rparr> else tasks w ! i)"
    using i by (simp add: toggleTodo_nth)
  show "id_todo ?new = id_todo (tasks w ! i)" and "title ?new = title (tasks w ! i)"
    and "createdAt ?new = createdAt (tasks w ! i)"
    unfolding new by simp_all
  assume "id_todo (tasks w ! i) \<noteq> p"
  then have "find_index (\<lambda>t. id_todo t = p) (tasks w) \<noteq> Some i"
    using find_index_SomeD [of "\<lambda>t. id_todo t = p" "tasks w" i] by blast
  then show "?new = tasks w ! i" unfolding new by simp
qed (simp_all add: removeTodo_def clearTodos_def)

theorem only_done_flag_changes_witness:
  "1 < length (tasks two_app) \<and>
   id_todo (tasks two_app ! 1) \<noteq> js ''1700000000000'' \<and>
   tasks (step e0 (ToggleTask (js ''1700000000000'')) two_app) ! 1 = tasks two_app ! 1 \<and>
   title (tasks (step e0 (ToggleTask (js ''1700000000000'')) two_app) ! 0) = js ''milk''"
proof -
  have h: "1 < length (tasks two_app) \<and> id_todo (tasks two_app ! 1) \<noteq> js ''1700000000000''"
    by (simp add: two_app_eq js_def)
  have t: "title (tasks two_app ! 0) = js ''milk''" "0 < length (tasks two_app)"
    by (simp_all add: two_app_eq)
  from only_done_flag_changes [where w = two_app and e = e0 and p = "js ''1700000000000''"] h t
  show ?thesis by auto
qed

subsection \<open>Removing\<close>

text \<open>
  C6. After removing by an id, the list is the old list without the tasks of that id,
  the others in their old order; when exactly one task has the id, the list is what
  was before it followed by what was after it; when no task has the id, the app is
  unchanged.
\<close>

theorem removeTask_keeps_order:
  "tasks (step e (RemoveTask p) w) = filter (\<lambda>t. id_todo t \<noteq> p) (tasks w) \<and>
   subseq (tasks (step e (RemoveTask p) w)) (tasks w) \<and>
   (tasks w = pre @ x # post \<and> id_todo x = p \<and> (\<forall>t\<in>set (pre @ post). id_todo t \<noteq> p) \<longrightarrow>
      tasks (step e (RemoveTask p) w) = pre @ post) \<and>
   ((\<forall>t\<in>set (tasks w). id_todo t \<noteq> p) \<longrightarrow> step e (RemoveTask p) w = w)"
proof (intro conjI impI)
  show "tasks (step e (RemoveTask p) w) = filter (\<lambda>t. id_todo t \<noteq> p) (tasks w)"
    by (simp add: removeTodo_def)
  show "subseq (tasks (step e (RemoveTask p) w)) (tasks w)"
    by (simp add: removeTodo_def)
next
  assume "tasks w = pre @ x # post \<and> id_todo x = p \<and> (\<forall>t\<in>set (pre @ post). id_todo t \<noteq> p)"
  then show "tasks (step e (RemoveTask p) w) = pre @ post"
    by (simp add: removeTodo_def)
next
  assume "\<forall>t\<in>set (tasks w). id_todo t \<noteq> p"
  then show "step e (RemoveTask p) w = w"
    by (simp add: dispatch_same_store store_reducer_same removeTodo_absent)
qed

theorem removeTask_keeps_order_witness:
  "tasks two_app = [] @ (tasks two_app ! 0) # [tasks two_app ! 1] \<and>
   id_todo (tasks two_app ! 0) = js ''1700000000000'' \<and>
   list_all (\<lambda>t. id_todo t \<noteq> js ''1700000000000'') ([] @ [tasks two_app ! 1]) \<and>
   tasks (step e0 (RemoveTask (js ''1700000000000'')) two_app) = [] @ [tasks two_app ! 1] \<and>
   list_all (\<lambda>t. id_todo t \<noteq> js ''42'') (tasks two_app) \<and>
   step e0 (RemoveTask (js ''42'')) two_app = two_app"
proof -
  have h1: "tasks two_app = [] @ (tasks two_app ! 0) # [tasks two_app ! 1] \<and>
     id_todo (tasks two_app ! 0) = js ''1700000000000'' \<and>
     (\<forall>t\<in>set ([] @ [tasks two_app ! 1]). id_todo t \<noteq> js ''1700000000000'')"
    by (simp add: two_app_eq js_def)
  have h2: "\<forall>t\<in>set (tasks two_app). id_todo t \<noteq> js ''42''"
    by (simp add: two_app_eq js_def)
  have "tasks (step e0 (RemoveTask (js ''1700000000000'')) two_app) = [] @ [tasks two_app ! 1]"
    using removeTask_keeps_order
            [where e = e0 and p = "js ''1700000000000''" and w = two_app and pre = "[]"
               and x = "tasks two_app ! 0" and post = "[tasks two_app ! 1]"] h1
    by blast
  moreover have "step e0 (RemoveTask (js ''42'')) two_app = two_app"
    using removeTask_keeps_order [where e = e0 and p = "js ''42''" and w = two_app] h2
    by blast
  ultimately show ?thesis using h1 h2 unfolding list_all_iff by blast
qed

text \<open>
  C10. When several tasks share an id: removing by that id leaves no task with it, and
  the list shrinks by the number of tasks that had it; toggling by that id flips the
  first of them, and the tasks after it, with that id or not, stay as they were.
\<close>

theorem duplicate_ids_remove_all_toggle_first:
  "(\<forall>t\<in>set (tasks (step e (RemoveTask p) w)). id_todo t \<noteq> p) \<and>
   length (tasks (step e (RemoveTask p) w)) + length (filter (\<lambda>t. id_todo t = p) (tasks w)) =
     length (tasks w) \<and>
   (tasks w = pre @ x # post \<and> id_todo x = p \<and> (\<forall>t\<in>set pre. id_todo t \<noteq> p) \<longrightarrow>
      tasks (step e (ToggleTask p) w) = pre @ x\<lparr>done_todo := \<not> done_todo x\<rparr> # post)"
proof (intro conjI impI)
  show "\<forall>t\<in>set (tasks (step e (RemoveTask p) w)). id_todo t \<noteq> p"
    by (simp add: removeTodo_def)
  show "length (tasks (step e (RemoveTask p) w)) + length (filter (\<lambda>t. id_todo t = p) (tasks w)) =
     length (tasks w)"
    using sum_length_filter_compl [of "\<lambda>t. id_todo t = p" "tasks w"]
    by (simp add: removeTodo_def)
next
  assume a: "tasks w = pre @ x # post \<and> id_todo x = p \<and> (\<forall>t\<in>set pre. id_todo t \<noteq> p)"
  then have "find_index (\<lambda>t. id_todo t = p) (tasks w) = Some (length pre)"
    by (intro find_index_first) (auto simp: nth_append)
  then have "tasks (step e (ToggleTask p) w) =
      (tasks w)[length pre := (tasks w ! length pre)\<lparr>done_todo := \<not> done_todo (tasks w ! length pre)\<rparr>]"
    by (simp add: toggleTodo_at)
  with a show "tasks (step e (ToggleTask p) w) = pre @ x\<lparr>done_todo := \<not> done_todo x\<rparr> # post"
    by simp
qed

theorem duplicate_ids_remove_all_toggle_first_witness:
  "tasks dup_app = [] @ (tasks dup_app ! 0) # [tasks dup_app ! 1] \<and>
   id_todo (tasks dup_app ! 0) = js ''1700000000000'' \<and>
   id_todo (tasks dup_app ! 1) = js ''1700000000000'' \<and>
   tasks (step e0 (ToggleTask (js ''1700000000000'')) dup_app) =
     [(tasks dup_app ! 0)\<lparr>done_todo := True\<rparr>, tasks dup_app ! 1] \<and>
   tasks (step e0 (RemoveTask (js ''1700000000000'')) dup_app) = []"
proof -
  have h: "tasks dup_app = [] @ (tasks dup_app ! 0) # [tasks dup_app ! 1] \<and>
     id_todo (tasks dup_app ! 0) = js ''1700000000000'' \<and>
     id_todo (tasks dup_app ! 1) = js ''1700000000000'' \<and>
     \<not> done_todo (tasks dup_app ! 0)"
    by (simp add: dup_app_eq)
  from duplicate_ids_remove_all_toggle_first
         [where e = e0 and p = "js ''1700000000000''" and w = dup_app and pre = "[]"
            and x = "tasks dup_app ! 0" and post = "[tasks dup_app ! 1]"] h
  have t: "tasks (step e0 (ToggleTask (js ''1700000000000'')) dup_app) =
     [(tasks dup_app ! 0)\<lparr>done_todo := True\<rparr>, tasks dup_app ! 1]"
    and r: "\<forall>t\<in>set (tasks (step e0 (RemoveTask (js ''1700000000000'')) dup_app)).
              id_todo t \<noteq> js ''1700000000000''"
    and l: "length (tasks (step e0 (RemoveTask (js ''1700000000000'')) dup_app)) +
            length (filter (\<lambda>t. id_todo t = js ''1700000000000'') (tasks dup_app)) =
            length (tasks dup_app)"
    by simp_all
  have "length (filter (\<lambda>t. id_todo t = js ''1700000000000'') (tasks dup_app)) = 2"
    "length (tasks dup_app) = 2"
    by (simp_all add: dup_app_eq)
  with l have "tasks (step e0 (RemoveTask (js ''1700000000000'')) dup_app) = []" by simp
  with t h show ?thesis by simp
qed

subsection \<open>The information banner\<close>

text \<open>
  C7. The flag \<open>showBanner\<close> is true in the initial state; \<^verbatim>\<open>dismissBanner\<close> makes it
  false; once it is false, no action of either slice makes it true, and it is false
  after every session of events, the timer included.
\<close>

theorem info_banner_dismissed_for_good:
  "showBanner ui_initialState \<and> showBanner (ui (store app_initial)) \<and>
   \<not> showBanner (dismissBanner u) \<and>
   \<not> showBanner (ui (store (step e DismissInfo w))) \<and>
   (\<not> showBanner (ui s) \<longrightarrow> \<not> showBanner (ui (store_reducer e s a))) \<and>
   (\<not> showBanner (ui (store w)) \<longrightarrow> \<not> showBanner (ui (store (run evs w))))"
  by (simp add: ui_initialState_def app_initial_def store_initialState_def dismissBanner_def
      showBanner_reducer showBanner_run)

theorem info_banner_dismissed_for_good_witness:
  "\<not> showBanner (ui (store (step e0 DismissInfo app_initial))) \<and>
   \<not> showBanner (ui (store_reducer e0 (store (step e0 DismissInfo app_initial)) ShowAddBanner)) \<and>
   \<not> showBanner (ui (store (run [(e0, AddTask (js ''milk'')), (e1, Elapse 2000), (e1, ToggleDark)]
        (step e0 DismissInfo app_initial))))"
  using info_banner_dismissed_for_good
          [where e = e0 and w = app_initial and s = "store (step e0 DismissInfo app_initial)"
             and a = ShowAddBanner]
        info_banner_dismissed_for_good
          [where e = e0 and w = "step e0 DismissInfo app_initial"
             and evs = "[(e0, AddTask (js ''milk'')), (e1, Elapse 2000), (e1, ToggleDark)]"]
  by blast

subsection \<open>The banner of a new task and its timer\<close>

text \<open>
  C8. An add with a text that is not empty after trimming sets \<open>showAddBanner\<close> and
  queues one hide, due 2000 after the timer clock at that moment. If no further add
  follows and the clock moves on by 2000 or more, the flag is false. Whenever a pending
  hide comes due, the flag is false afterwards. With two adds less than 2000 apart,
  the flag is false once the first hide has run, while the hide of the second add is
  still pending.
\<close>

theorem added_banner_timer:
  "(trim s \<noteq> [] \<longrightarrow>
      banner (step e (AddTask s) w) \<and>
      timers (step e (AddTask s) w) = timers w @ [clock w + 2000]) \<and>
   (trim s \<noteq> [] \<and> (\<forall>x\<in>set evs. \<not> is_add (snd x)) \<and> 2000 \<le> elapsed evs \<longrightarrow>
      \<not> banner (run evs (step e (AddTask s) w))) \<and>
   ((\<exists>t\<in>set (timers w). t \<le> clock w + d) \<longrightarrow> \<not> banner (step e (Elapse d) w)) \<and>
   (trim s1 \<noteq> [] \<and> trim s2 \<noteq> [] \<and> d1 < 2000 \<and> d2 < 2000 \<and> 2000 \<le> d1 + d2 \<longrightarrow>
      \<not> banner (run [(ea, AddTask s1), (eb, Elapse d1), (ec, AddTask s2), (ed, Elapse d2)] w) \<and>
      clock w + d1 + 2000 \<in>
        set (timers (run [(ea, AddTask s1), (eb, Elapse d1), (ec, AddTask s2), (ed, Elapse d2)] w)))"
proof (intro conjI impI)
  assume "trim s \<noteq> []"
  then show "banner (step e (AddTask s) w)"
    and "timers (step e (AddTask s) w) = timers w @ [clock w + 2000]"
    by (simp_all add: addTask_banner)
next
  assume a: "trim s \<noteq> [] \<and> (\<forall>x\<in>set evs. \<not> is_add (snd x)) \<and> 2000 \<le> elapsed evs"
  let ?w = "step e (AddTask s) w"
  from a have "clock w + 2000 \<in> set (timers ?w)" and "clock ?w < clock w + 2000"
    and "clock w + 2000 \<le> clock ?w + elapsed evs"
    by (simp_all add: addTask_banner)
  then show "\<not> banner (run evs ?w)" using a by (intro hide_fires) auto
next
  assume "\<exists>t\<in>set (timers w). t \<le> clock w + d"
  then show "\<not> banner (step e (Elapse d) w)" by (fastforce simp: banner_advance not_less)
next
  assume a: "trim s1 \<noteq> [] \<and> trim s2 \<noteq> [] \<and> d1 < 2000 \<and> d2 < 2000 \<and> 2000 \<le> d1 + d2"
  let ?w1 = "step ea (AddTask s1) w"
  let ?w2 = "step eb (Elapse d1) ?w1"
  let ?w3 = "step ec (AddTask s2) ?w2"
  have t1: "timers ?w1 = timers w @ [clock w + 2000]" and c1: "clock ?w1 = clock w"
    using a by (simp_all add: addTask_banner)
  have t2: "clock w + 2000 \<in> set (timers ?w2)" and c2: "clock ?w2 = clock w + d1"
    using a t1 c1 by auto
  have t3: "timers ?w3 = timers ?w2 @ [clock w + d1 + 2000]" and c3: "clock ?w3 = clock w + d1"
    using a c2 by (simp_all add: addTask_banner)
  have "\<exists>t\<in>set (timers ?w3). t \<le> clock ?w3 + d2"
    using t2 t3 c3 a by (intro bexI [of _ "clock w + 2000"]) auto
  then have "\<not> banner (advance ed d2 ?w3)" by (fastforce simp: banner_advance not_less)
  then show "\<not> banner (run [(ea, AddTask s1), (eb, Elapse d1), (ec, AddTask s2), (ed, Elapse d2)] w)"
    by simp
  have "clock w + d1 + 2000 \<in> set (timers (advance ed d2 ?w3))"
    using t3 c3 a by (simp only: timers_advance) auto
  then show "clock w + d1 + 2000 \<in>
        set (timers (run [(ea, AddTask s1), (eb, Elapse d1), (ec, AddTask s2), (ed, Elapse d2)] w))"
    by simp
qed

theorem added_banner_timer_witness:
  "trim (js ''milk'') \<noteq> [] \<and>
   banner (step e0 (AddTask (js ''milk'')) app_initial) \<and>
   timers (step e0 (AddTask (js ''milk'')) app_initial) = [2000] \<and>
   list_all (\<lambda>x. \<not> is_add (snd x)) [(e0, ToggleDark), (e1, Elapse 2000)] \<and>
   2000 \<le> elapsed [(e0, ToggleDark), (e1, Elapse 2000)] \<and>
   \<not> banner (run [(e0, ToggleDark), (e1, Elapse 2000)] (step e0 (AddTask (js ''milk'')) app_initial)) \<and>
   list_ex (\<lambda>t. t \<le> clock two_app + 2000) (timers two_app) \<and>
   \<not> banner (step e0 (Elapse 2000) two_app) \<and>
   (1500::nat) < 2000 \<and> (600::nat) < 2000 \<and> (2000::nat) \<le> 1500 + 600 \<and>
   \<not> banner (run [(e0, AddTask (js ''milk'')), (e0, Elapse 1500), (e1, AddTask (js ''milk'')),
                  (e1, Elapse 600)] app_initial) \<and>
   3500 \<in> set (timers (run [(e0, AddTask (js ''milk'')), (e0, Elapse 1500),
                  (e1, AddTask (js ''milk'')), (e1, Elapse 600)] app_initial))"
proof -
  have h1: "trim (js ''milk'') \<noteq> []" by (simp add: trim_def js_def isWhiteSpace_def)
  have h2: "(\<forall>x\<in>set [(e0, ToggleDark), (e1, Elapse 2000)]. \<not> is_add (snd x)) \<and>
     2000 \<le> elapsed [(e0, ToggleDark), (e1, Elapse 2000)]" by simp
  have h3: "\<exists>t\<in>set (timers two_app). t \<le> clock two_app + 2000" by (simp add: two_app_eq)
  have h4: "(1500::nat) < 2000 \<and> (600::nat) < 2000 \<and> (2000::nat) \<le> 1500 + 600" by simp
  have c: "clock app_initial = 0" "timers app_initial = []" by (simp_all add: app_initial_def)
  from added_banner_timer
         [where s = "js ''milk''" and e = e0 and w = app_initial
            and evs = "[(e0, ToggleDark), (e1, Elapse 2000)]" and ?s1.0 = "js ''milk''"
            and ?s2.0 = "js ''milk''" and ?d1.0 = 1500 and ?d2.0 = 600 and ea = e0
            and eb = e0 and ec = e1 and ed = e1]
  have a: "banner (step e0 (AddTask (js ''milk'')) app_initial)"
    "timers (step e0 (AddTask (js ''milk'')) app_initial) = [2000]"
    "\<not> banner (run [(e0, ToggleDark), (e1, Elapse 2000)] (step e0 (AddTask (js ''milk'')) app_initial))"
    "\<not> banner (run [(e0, AddTask (js ''milk'')), (e0, Elapse 1500), (e1, AddTask (js ''milk'')),
                  (e1, Elapse 600)] app_initial)"
    "3500 \<in> set (timers (run [(e0, AddTask (js ''milk'')), (e0, Elapse 1500),
                  (e1, AddTask (js ''milk'')), (e1, Elapse 600)] app_initial))"
    using h1 h2 h4 c by simp_all
  from added_banner_timer [where w = two_app and d = 2000 and e = e0] h3
  have b: "\<not> banner (step e0 (Elapse 2000) two_app)" by blast
  from a b h1 h2 h3 h4 show ?thesis unfolding list_all_iff list_ex_iff by blast
qed

subsection \<open>The two slices\<close>

text \<open>
  C9. Under the store's reducer, the four actions of the todos slice leave the ui slice
  as it is, and the four actions of the ui slice leave the todos slice as it is.
\<close>

theorem slices_independent:
  "ui (store_reducer e s (AddTodo p)) = ui s \<and>
   ui (store_reducer e s (ToggleTodo p)) = ui s \<and>
   ui (store_reducer e s (RemoveTodo p)) = ui s \<and>
   ui (store_reducer e s ClearTodos) = ui s \<and>
   todos (store_reducer e s ToggleDarkMode) = todos s \<and>
   todos (store_reducer e s DismissBanner) = todos s \<and>
   todos (store_reducer e s ShowAddBanner) = todos s \<and>
   todos (store_reducer e s HideAddBanner) = todos s"
  by simp

end
